theory Spec2Isabelle
  imports
    Complex_Main
    "HOL-Library.Char_ord"
    "HOL-Library.List_Lexorder"
    "HOL-Library.Sublist"
begin

section \<open>Strings\<close>

text \<open>
  A Python \<open>str\<close> is modelled as a \<open>string\<close>; a \<open>char\<close> stands for the code point of
  the same number, so the model covers the code points below 256. The order on strings is
  the lexicographic order on code points, which is the order Python's \<open>sorted\<close> uses.
\<close>

definition is_space :: "char \<Rightarrow> bool" where
  \<comment> \<open>\<open>str.isspace\<close> on one code point below 256\<close>
  "is_space c =
     (let n = (of_char c :: nat)
      in (9 \<le> n \<and> n \<le> 13) \<or> (28 \<le> n \<and> n \<le> 32) \<or> n = 133 \<or> n = 160)"

definition strip :: "string \<Rightarrow> string" where
  \<comment> \<open>\<open>s.strip()\<close>\<close>
  "strip s = rev (dropWhile is_space (rev (dropWhile is_space s)))"

definition is_linebreak :: "char \<Rightarrow> bool" where
  \<comment> \<open>the line boundaries of \<open>str.splitlines\<close> below 256\<close>
  "is_linebreak c =
     (let n = (of_char c :: nat)
      in (10 \<le> n \<and> n \<le> 13) \<or> (28 \<le> n \<and> n \<le> 30) \<or> n = 133)"

fun splitlines_from :: "string \<Rightarrow> string \<Rightarrow> string list" where
  "splitlines_from cur [] = (if cur = [] then [] else [cur])"
| "splitlines_from cur [c] = (if is_linebreak c then [cur] else [cur @ [c]])"
| "splitlines_from cur (c # d # cs) =
     (if c = CHR 0x0D \<and> d = CHR 0x0A then cur # splitlines_from [] cs
      else if is_linebreak c then cur # splitlines_from [] (d # cs)
      else splitlines_from (cur @ [c]) (d # cs))"

definition splitlines :: "string \<Rightarrow> string list" where
  \<comment> \<open>\<open>s.splitlines()\<close>: no line ends are kept, no empty last line\<close>
  "splitlines s = splitlines_from [] s"

fun split_from :: "char \<Rightarrow> string \<Rightarrow> string \<Rightarrow> string list" where
  "split_from sep cur [] = [cur]"
| "split_from sep cur (c # cs) =
     (if c = sep then cur # split_from sep [] cs else split_from sep (cur @ [c]) cs)"

definition split :: "char \<Rightarrow> string \<Rightarrow> string list" where
  \<comment> \<open>\<open>s.split(sep)\<close> for a separator of one character\<close>
  "split sep s = split_from sep [] s"

definition endswith :: "string \<Rightarrow> string \<Rightarrow> bool" where
  \<comment> \<open>\<open>s.endswith(suf)\<close>\<close>
  "endswith s suf = (length suf \<le> length s \<and> drop (length s - length suf) s = suf)"

definition replace_star :: "string \<Rightarrow> string" where
  \<comment> \<open>\<open>s.replace('*', '%25')\<close>\<close>
  "replace_star s = concat (map (\<lambda>c. if c = CHR ''*'' then ''%25'' else [c]) s)"

section \<open>Decoded JSON and the exceptions of the pipeline\<close>

text \<open>
  \<open>response.json()\<close> may return any JSON value. A number is kept as its value: an
  \<open>int\<close> and a finite \<open>float\<close> behave alike in this program (truth value, not iterable,
  no attributes). An object is the list of its items, keys distinct.
\<close>

datatype json =
    JNull
  | JBool bool
  | JNum rat
  | JStr string
  | JArr "json list"
  | JObj "(string \<times> json) list"

datatype py_error = AttributeError | TypeError | ValueError

fun truthy :: "json \<Rightarrow> bool" where
  "truthy JNull = False"
| "truthy (JBool b) = b"
| "truthy (JNum n) = (n \<noteq> 0)"
| "truthy (JStr s) = (s \<noteq> [])"
| "truthy (JArr xs) = (xs \<noteq> [])"
| "truthy (JObj kvs) = (kvs \<noteq> [])"

fun py_iter :: "json \<Rightarrow> py_error + json list" where
  \<comment> \<open>\<open>for entry in jsondata\<close>: the values the loop variable takes\<close>
  "py_iter (JArr xs) = Inr xs"
| "py_iter (JObj kvs) = Inr (map (\<lambda>kv. JStr (fst kv)) kvs)"
| "py_iter (JStr s) = Inr (map (\<lambda>c. JStr [c]) s)"
| "py_iter JNull = Inl TypeError"
| "py_iter (JBool b) = Inl TypeError"
| "py_iter (JNum n) = Inl TypeError"

fun entry_subnames :: "json \<Rightarrow> py_error + string list" where
  \<comment> \<open>\<open>entry.get('name_value', '').splitlines()\<close>\<close>
  "entry_subnames (JObj kvs) =
     (case map_of kvs ''name_value'' of
        None \<Rightarrow> Inr (splitlines [])
      | Some (JStr name_value) \<Rightarrow> Inr (splitlines name_value)
      | Some _ \<Rightarrow> Inl AttributeError)"
| "entry_subnames _ = Inl AttributeError"

section \<open>Classification\<close>

type_synonym sets = "string set \<times> string set"
  \<comment> \<open>\<open>(subdomains, wildcard_subdomains)\<close>\<close>

definition add_subdomain :: "string \<Rightarrow> sets \<Rightarrow> sets" where
  "add_subdomain subdomain s =
     (case s of (subdomains, wildcard_subdomains) \<Rightarrow>
        if CHR ''*'' \<in> set subdomain
        then (subdomains, insert subdomain wildcard_subdomains)
        else (insert subdomain subdomains, wildcard_subdomains))"

fun add_subnames :: "string list \<Rightarrow> sets \<Rightarrow> sets" where
  \<comment> \<open>\<open>for subname in subnames: add_subdomain(subname.strip())\<close>\<close>
  "add_subnames [] s = s"
| "add_subnames (subname # subnames) s = add_subnames subnames (add_subdomain (strip subname) s)"

fun process_entries :: "json list \<Rightarrow> sets \<Rightarrow> py_error + sets" where
  \<comment> \<open>the body of \<open>for entry in jsondata\<close>; an exception ends the loop\<close>
  "process_entries [] s = Inr s"
| "process_entries (entry # entries) s =
     (case entry_subnames entry of
        Inl e \<Rightarrow> Inl e
      | Inr subnames \<Rightarrow> process_entries entries (add_subnames subnames s))"

definition process_json :: "json \<Rightarrow> sets \<Rightarrow> py_error + sets" where
  "process_json jsondata s =
     (case py_iter jsondata of Inl e \<Rightarrow> Inl e | Inr entries \<Rightarrow> process_entries entries s)"

section \<open>The Fetcher\<close>

text \<open>
  The network is a parameter: \<open>http w req\<close> is what one HTTP request \<open>req\<close> meets in
  the world \<open>w\<close>, together with the world after the request: a failure to connect, a
  failure while reading, another transport failure (TLS, say), or a response with its
  status code, its \<open>Retry-After\<close> header as the library reads it, and its decoded body.
  A redirect that the session follows is part of the request it answers. Outside the
  model: bodies that are not JSON, header values the library refuses to send, and
  timeouts and delays that are not finite numbers.
\<close>

record request =
  req_url :: string
  req_user_agent :: string
  req_timeout :: rat

datatype retry_after =
    NoHeader  \<comment> \<open>no \<open>Retry-After\<close> header\<close>
  | EmptyHeader  \<comment> \<open>the header is there with an empty value\<close>
  | Delay rat  \<comment> \<open>a number of seconds, or a date that many seconds from now\<close>
  | Unparsable  \<comment> \<open>any other value\<close>

datatype http_outcome = ConnectFailure | ReadFailure | OtherFailure | Response nat retry_after json

type_synonym 'w net = "'w \<Rightarrow> request \<Rightarrow> http_outcome \<times> 'w"

datatype request_exception =
  ConnectionError | SSLError | RetryError | InvalidHeader | HTTPError nat

record retry =
  retry_total :: int
  retry_read :: int
  retry_connect :: int
  retry_backoff_factor :: rat
  retry_status_forcelist :: "nat list"
  retry_history :: nat  \<comment> \<open>the length of \<open>history\<close>: the failed requests so far\<close>

definition requests_retry_session :: "int \<Rightarrow> rat \<Rightarrow> nat list \<Rightarrow> retry" where
  \<comment> \<open>the session is its retry policy, mounted for both URL schemes\<close>
  "requests_retry_session retries backoff_factor status_forcelist =
     \<lparr>retry_total = retries, retry_read = retries, retry_connect = retries,
      retry_backoff_factor = backoff_factor, retry_status_forcelist = status_forcelist,
      retry_history = 0\<rparr>"

definition default_session :: retry where
  \<comment> \<open>\<open>requests_retry_session()\<close>: \<open>retries=3, backoff_factor=0.3, status_forcelist=(500, 502, 504)\<close>\<close>
  "default_session = requests_retry_session 3 (3 / 10) [500, 502, 504]"

text \<open>
  What the mounted adapter does with the policy, for a \<open>GET\<close>. A failed request uses up
  one retry (and one of its own counter, where the policy has one), and so does a response
  that is to be retried: one whose status is in the force list, or, while retries are
  left, one with status 413, 429 or 503 whose \<open>Retry-After\<close> header is not empty. Unless
  a counter has fallen below zero, the session then pauses and sends the request again.
  After a response the pause is the delay of its \<open>Retry-After\<close> header, when that is not
  zero; a header that cannot be read raises \<open>InvalidHeader\<close> instead. In every other
  case the pause is the backoff time: nothing after the first failure, then the factor
  times 2 to the number of failures less one, at most 120 seconds. The factor \<open>0.3\<close> is
  the rational 3/10 here; doubling a float is exact.
\<close>

definition increment_connect :: "retry \<Rightarrow> retry" where
  "increment_connect r =
     r\<lparr>retry_total := retry_total r - 1, retry_connect := retry_connect r - 1,
       retry_history := Suc (retry_history r)\<rparr>"

definition increment_read :: "retry \<Rightarrow> retry" where
  "increment_read r =
     r\<lparr>retry_total := retry_total r - 1, retry_read := retry_read r - 1,
       retry_history := Suc (retry_history r)\<rparr>"

definition increment_other :: "retry \<Rightarrow> retry" where
  "increment_other r = r\<lparr>retry_total := retry_total r - 1, retry_history := Suc (retry_history r)\<rparr>"

definition increment_status :: "retry \<Rightarrow> retry" where
  "increment_status r = r\<lparr>retry_total := retry_total r - 1, retry_history := Suc (retry_history r)\<rparr>"

definition has_retry_after :: "retry_after \<Rightarrow> bool" where
  \<comment> \<open>\<open>bool(response.headers.get("Retry-After"))\<close>\<close>
  "has_retry_after h = (case h of NoHeader \<Rightarrow> False | EmptyHeader \<Rightarrow> False | _ \<Rightarrow> True)"

definition is_retry :: "retry \<Rightarrow> nat \<Rightarrow> bool \<Rightarrow> bool" where
  "is_retry r status has_header =
     (status \<in> set (retry_status_forcelist r) \<or>
      (retry_total r \<noteq> 0 \<and> has_header \<and> status \<in> {413, 429, 503}))"

definition is_exhausted :: "retry \<Rightarrow> bool" where
  "is_exhausted r = (min (retry_total r) (min (retry_connect r) (retry_read r)) < 0)"

definition get_backoff_time :: "retry \<Rightarrow> rat" where
  "get_backoff_time r =
     (if retry_history r \<le> 1 then 0
      else min 120 (retry_backoff_factor r * 2 ^ (retry_history r - 1)))"

definition get_retry_after :: "retry_after \<Rightarrow> request_exception + rat option" where
  "get_retry_after h =
     (case h of
        NoHeader \<Rightarrow> Inr None
      | EmptyHeader \<Rightarrow> Inl InvalidHeader
      | Unparsable \<Rightarrow> Inl InvalidHeader
      | Delay seconds \<Rightarrow> Inr (Some (if seconds < 0 then 0 else seconds)))"

datatype pause = Backoff rat | Advised rat

definition sleep :: "retry \<Rightarrow> retry_after \<Rightarrow> request_exception + pause" where
  \<comment> \<open>\<open>retries.sleep(response)\<close>\<close>
  "sleep r h =
     (case get_retry_after h of
        Inl e \<Rightarrow> Inl e
      | Inr None \<Rightarrow> Inr (Backoff (get_backoff_time r))
      | Inr (Some seconds) \<Rightarrow>
          if seconds \<noteq> 0 then Inr (Advised seconds) else Inr (Backoff (get_backoff_time r)))"

function session_run ::
  "'w net \<Rightarrow> retry \<Rightarrow> nat \<Rightarrow> pause list \<Rightarrow> request \<Rightarrow> 'w
     \<Rightarrow> (request_exception + nat \<times> json) \<times> nat \<times> pause list \<times> 'w" where
  \<comment> \<open>\<open>n\<close> counts the requests sent so far, \<open>ps\<close> lists the pauses made\<close>
  "session_run http r n ps req w =
     (case http w req of
        (ConnectFailure, w') \<Rightarrow>
          if is_exhausted (increment_connect r) then (Inl ConnectionError, Suc n, ps, w')
          else session_run http (increment_connect r) (Suc n)
                 (ps @ [Backoff (get_backoff_time (increment_connect r))]) req w'
      | (ReadFailure, w') \<Rightarrow>
          if is_exhausted (increment_read r) then (Inl ConnectionError, Suc n, ps, w')
          else session_run http (increment_read r) (Suc n)
                 (ps @ [Backoff (get_backoff_time (increment_read r))]) req w'
      | (OtherFailure, w') \<Rightarrow>
          if is_exhausted (increment_other r) then (Inl SSLError, Suc n, ps, w')
          else session_run http (increment_other r) (Suc n)
                 (ps @ [Backoff (get_backoff_time (increment_other r))]) req w'
      | (Response status header body, w') \<Rightarrow>
          if is_retry r status (has_retry_after header)
          then (if is_exhausted (increment_status r) then (Inl RetryError, Suc n, ps, w')
                else (case sleep (increment_status r) header of
                        Inl e \<Rightarrow> (Inl e, Suc n, ps, w')
                      | Inr p \<Rightarrow>
                          session_run http (increment_status r) (Suc n) (ps @ [p]) req w'))
          else (Inr (status, body), Suc n, ps, w'))"
  by pat_completeness auto
termination
  by (relation "measure (\<lambda>(http, r, n, ps, req, w). nat (retry_total r + 1))")
     (auto simp: is_exhausted_def increment_connect_def increment_read_def increment_other_def
        increment_status_def)

declare session_run.simps [simp del]

definition session_get ::
  "'w net \<Rightarrow> retry \<Rightarrow> nat \<Rightarrow> request \<Rightarrow> 'w \<Rightarrow> (request_exception + nat \<times> json) \<times> nat \<times> 'w" where
  \<comment> \<open>\<open>session.get\<close>: the response or the exception, the requests sent, the world after\<close>
  "session_get http r n req w =
     (case session_run http r n [] req w of (response, m, ps, w') \<Rightarrow> (response, m, w'))"

definition raise_for_status :: "nat \<Rightarrow> request_exception + unit" where
  "raise_for_status status = (if 400 \<le> status \<and> status < 600 then Inl (HTTPError status) else Inr ())"

definition BASE_URL :: "string \<Rightarrow> string" where
  "BASE_URL q = ''https://crt.sh/?q='' @ q @ ''&output=json''"

text \<open>
  The state of a run: the world, the queries \<open>fetch_subdomains\<close> was called with, in
  order, and the number of HTTP requests sent.
\<close>

record 'w fetch_state =
  world :: 'w
  fetched :: "string list"
  sent :: nat

text \<open>
  Two calls in \<open>fetch_subdomains\<close> raise an exception that its handler does not catch:
  \<open>session.get\<close> with a timeout that is not positive, before anything is sent, and
  \<open>time.sleep\<close> with a negative delay, after a fetch that succeeded. Both raise
  \<open>ValueError\<close>.
\<close>

definition fetch_subdomains ::
  "'w net \<Rightarrow> string \<Rightarrow> string \<Rightarrow> rat \<Rightarrow> bool \<Rightarrow> rat \<Rightarrow> 'w fetch_state
     \<Rightarrow> (py_error + json) \<times> 'w fetch_state" where
  "fetch_subdomains http domain user_agent timeout verbose rate_limit st =
     (if timeout \<le> 0 then (Inl ValueError, st\<lparr>fetched := fetched st @ [domain]\<rparr>)
      else
       (case session_get http default_session 0
               \<lparr>req_url = BASE_URL domain, req_user_agent = user_agent, req_timeout = timeout\<rparr>
               (world st) of
          (response, n, w') \<Rightarrow>
            (let st' = \<lparr>world = w', fetched = fetched st @ [domain], sent = sent st + n\<rparr>
             in case response of
                  Inl e \<Rightarrow> (Inr (JArr []), st')
                | Inr (status, body) \<Rightarrow>
                    (case raise_for_status status of
                       Inl e \<Rightarrow> (Inr (JArr []), st')
                     | Inr _ \<Rightarrow>
                         if rate_limit < 0 then (Inl ValueError, st') else (Inr body, st')))))"

section \<open>The pipeline\<close>

text \<open>
  A Python set is a finite \<open>string set\<close>. The order in which \<open>list(s)\<close> walks a set is
  not fixed by the language; it is the parameter \<open>order\<close>.
\<close>

fun expand ::
  "'w net \<Rightarrow> bool \<Rightarrow> string \<Rightarrow> rat \<Rightarrow> rat \<Rightarrow> string list \<Rightarrow> sets \<Rightarrow> 'w fetch_state
     \<Rightarrow> (py_error + sets) \<times> 'w fetch_state" where
  \<comment> \<open>the loop \<open>for wildcard_subdomain in list(wildcard_subdomains)\<close>\<close>
  "expand http verbose user_agent timeout rate_limit [] s st = (Inr s, st)"
| "expand http verbose user_agent timeout rate_limit (wildcard_subdomain # rest) s st =
     (case fetch_subdomains http (replace_star wildcard_subdomain) user_agent timeout verbose
             rate_limit st of
        (Inl e, st') \<Rightarrow> (Inl e, st')
      | (Inr jsondata_recursive, st') \<Rightarrow>
          if \<not> truthy jsondata_recursive
          then expand http verbose user_agent timeout rate_limit rest s st'
          else (case process_json jsondata_recursive s of
                  Inl e \<Rightarrow> (Inl e, st')
                | Inr s' \<Rightarrow> expand http verbose user_agent timeout rate_limit rest s' st'))"

definition merge_wildcards :: "bool \<Rightarrow> bool \<Rightarrow> sets \<Rightarrow> string set" where
  \<comment> \<open>\<open>update\<close> under \<open>wildcard\<close>, then \<open>difference_update\<close> under \<open>exclude_wildcards\<close>\<close>
  "merge_wildcards wildcard exclude_wildcards s =
     (case s of (subdomains, wildcard_subdomains) \<Rightarrow>
        (let subdomains = (if wildcard then subdomains \<union> wildcard_subdomains else subdomains)
         in if exclude_wildcards then subdomains - wildcard_subdomains else subdomains))"

fun matches_extension :: "string \<Rightarrow> string list \<Rightarrow> bool" where
  \<comment> \<open>the inner loop over \<open>extensions.split(',')\<close>, left at the first match\<close>
  "matches_extension subdomain [] = False"
| "matches_extension subdomain (ext # exts) =
     (if endswith subdomain (''.'' @ strip ext) then True else matches_extension subdomain exts)"

definition filter_extensions :: "string option \<Rightarrow> string set \<Rightarrow> string set" where
  "filter_extensions extensions subdomains =
     (case extensions of
        None \<Rightarrow> subdomains
      | Some x \<Rightarrow>
          if x = [] then subdomains
          else Set.filter (\<lambda>subdomain. matches_extension subdomain (split CHR '','' x)) subdomains)"

definition process_subdomains ::
  "'w net \<Rightarrow> (string set \<Rightarrow> string list) \<Rightarrow> string \<Rightarrow> bool \<Rightarrow> bool \<Rightarrow> bool \<Rightarrow> bool \<Rightarrow> string
     \<Rightarrow> rat \<Rightarrow> rat \<Rightarrow> string option \<Rightarrow> 'w fetch_state \<Rightarrow> (py_error + string set) \<times> 'w fetch_state" where
  "process_subdomains http order domain recursive wildcard exclude_wildcards verbose user_agent
     timeout rate_limit extensions st =
     (case fetch_subdomains http domain user_agent timeout verbose rate_limit st of
        (Inl e, st1) \<Rightarrow> (Inl e, st1)
      | (Inr jsondata, st1) \<Rightarrow>
          if \<not> truthy jsondata then (Inr {}, st1)
          else (case process_json jsondata ({}, {}) of
                  Inl e \<Rightarrow> (Inl e, st1)
                | Inr s1 \<Rightarrow>
                    (case (if recursive
                           then expand http verbose user_agent timeout rate_limit
                                  (order (snd s1)) s1 st1
                           else (Inr s1, st1)) of
                       (Inl e, st2) \<Rightarrow> (Inl e, st2)
                     | (Inr s2, st2) \<Rightarrow>
                         (Inr (filter_extensions extensions
                                 (merge_wildcards wildcard exclude_wildcards s2)), st2))))"

section \<open>The Sink and the entry point\<close>

datatype file_content =
    JsonDump json  \<comment> \<open>the document handed to \<open>json.dump\<close>\<close>
  | Text string

definition save_to_file ::
  "(string set \<Rightarrow> string list) \<Rightarrow> string set \<Rightarrow> string option \<Rightarrow> file_content" where
  \<comment> \<open>what is written to \<open>output_file\<close> when it can be opened\<close>
  "save_to_file order subdomains output_format =
     (if output_format = Some ''json''
      then JsonDump (JObj [(''subdomains'', JArr (map JStr (order subdomains)))])
      else Text (concat (map (\<lambda>subdomain. subdomain @ [CHR 0x0A])
                           (sorted_list_of_set subdomains))))"

record args =
  arg_domain :: string
  arg_recursive :: bool
  arg_wildcard :: bool
  arg_output :: "string option"
  arg_verbose :: bool
  arg_exclude_wildcards :: bool
  arg_user_agent :: string
  arg_rate_limit :: rat
  arg_timeout :: rat
  arg_log :: string
  arg_extensions :: "string option"
  arg_format :: "string option"
  arg_interactive :: bool
  arg_technique :: string

datatype console = Found string | Error py_error

definition str_truthy :: "string option \<Rightarrow> bool" where
  "str_truthy x = (case x of None \<Rightarrow> False | Some s \<Rightarrow> s \<noteq> [])"

definition main ::
  "'w net \<Rightarrow> (string set \<Rightarrow> string list) \<Rightarrow> args \<Rightarrow> 'w fetch_state
     \<Rightarrow> console list \<times> (string \<times> file_content) option \<times> 'w fetch_state" where
  \<comment> \<open>the script after \<open>parse_args\<close>: the lines printed, the file written, the final state\<close>
  "main http order a st =
     (case process_subdomains http order (arg_domain a) (arg_recursive a) (arg_wildcard a)
             (arg_exclude_wildcards a) (arg_verbose a) (arg_user_agent a) (arg_timeout a)
             (arg_rate_limit a)
             (if str_truthy (arg_extensions a) then arg_extensions a else None) st of
        (Inl e, st') \<Rightarrow> ([Error e], None, st')
      | (Inr subdomains, st') \<Rightarrow>
          (map Found (sorted_list_of_set subdomains),
           (if str_truthy (arg_output a)
            then Some (the (arg_output a), save_to_file order subdomains (arg_format a))
            else None),
           st'))"

section \<open>Data sources for running the model\<close>


definition serve :: "(string \<times> http_outcome) list \<Rightarrow> unit net" where
  \<comment> \<open>a fixed table from URL to outcome; unknown URLs answer 404\<close>
  "serve table w req =
     (case map_of table (req_url req) of None \<Rightarrow> (Response 404 NoHeader JNull, w) | Some x \<Rightarrow> (x, w))"

definition start :: "'w \<Rightarrow> 'w fetch_state" where
  "start w = \<lparr>world = w, fetched = [], sent = 0\<rparr>"

section \<open>Notions used in the statements\<close>

fun hostnames :: "json list \<Rightarrow> string list" where
  \<comment> \<open>the trimmed lines of the records up to the first record that raises\<close>
  "hostnames [] = []"
| "hostnames (entry # entries) =
     (case entry_subnames entry of
        Inl e \<Rightarrow> []
      | Inr subnames \<Rightarrow> map strip subnames @ hostnames entries)"

definition separated :: "sets \<Rightarrow> bool" where
  "separated s = ((\<forall>h \<in> fst s. CHR ''*'' \<notin> set h) \<and> (\<forall>h \<in> snd s. CHR ''*'' \<in> set h))"



section \<open>The string functions\<close>

text \<open>
  What the definitions above compute: the pieces of \<open>split\<close> hold no separator and give
  the string back when joined; the lines of \<open>splitlines\<close> hold no line boundary;
  \<open>strip\<close> removes whitespace at both ends and nothing else; a query has no \<open>*\<close>.
\<close>

lemma split_from_join: "concat (map ((#) sep) (split_from sep cur s)) = sep # cur @ s"
  by (induction s arbitrary: cur) simp_all

lemma split_join: "concat (map ((#) sep) (split sep s)) = sep # s"
  by (simp add: split_def split_from_join)

lemma split_from_pieces:
  "sep \<notin> set cur \<Longrightarrow> \<forall>p \<in> set (split_from sep cur s). sep \<notin> set p"
proof (induction s arbitrary: cur)
  case Nil
  then show ?case by simp
next
  case (Cons a s)
  show ?case
  proof (cases "a = sep")
    case True
    from Cons.IH [of "[]"] have "\<forall>p \<in> set (split_from sep [] s). sep \<notin> set p"
      by simp
    with True Cons.prems show ?thesis
      by simp
  next
    case False
    with Cons.prems have "sep \<notin> set (cur @ [a])"
      by auto
    from Cons.IH [OF this] False show ?thesis
      by simp
  qed
qed

lemma split_pieces: "p \<in> set (split sep s) \<Longrightarrow> sep \<notin> set p"
  using split_from_pieces [of sep "[]" s] by (simp add: split_def)

lemma replace_star_no_star: "CHR ''*'' \<notin> set (replace_star s)"
  by (induction s) (simp_all add: replace_star_def)

lemma splitlines_from_lines:
  "\<forall>c \<in> set cur. \<not> is_linebreak c \<Longrightarrow>
     \<forall>l \<in> set (splitlines_from cur s). \<forall>c \<in> set l. \<not> is_linebreak c"
proof (induction cur s rule: splitlines_from.induct)
  case (1 cur)
  then show ?case by simp
next
  case (2 cur c)
  then show ?case by simp
next
  case (3 cur c d cs)
  have empty: "\<forall>c \<in> set []. \<not> is_linebreak c"
    by simp
  show ?case
  proof (cases "c = CHR 0x0D \<and> d = CHR 0x0A")
    case True
    then have "splitlines_from cur (c # d # cs) = cur # splitlines_from [] cs"
      by (simp only: splitlines_from.simps simp_thms if_True)
    with "3.IH"(1) [OF True empty] "3.prems" show ?thesis
      by simp
  next
    case False
    show ?thesis
    proof (cases "is_linebreak c")
      case True
      with False have "splitlines_from cur (c # d # cs) = cur # splitlines_from [] (d # cs)"
        by (simp only: splitlines_from.simps simp_thms if_True if_False)
      with "3.IH"(2) [OF False True empty] "3.prems" show ?thesis
        by simp
    next
      case nb: False
      with False have eq: "splitlines_from cur (c # d # cs) = splitlines_from (cur @ [c]) (d # cs)"
        by (simp only: splitlines_from.simps simp_thms if_False)
      from nb "3.prems" have "\<forall>x \<in> set (cur @ [c]). \<not> is_linebreak x"
        by simp
      from "3.IH"(3) [OF False nb this] show ?thesis
        by (simp only: eq)
    qed
  qed
qed

lemma splitlines_lines: "l \<in> set (splitlines s) \<Longrightarrow> c \<in> set l \<Longrightarrow> \<not> is_linebreak c"
  using splitlines_from_lines [of "[]" s] by (simp add: splitlines_def)

lemma strip_decomposition:
  "\<exists>a b. s = a @ strip s @ b \<and> (\<forall>c \<in> set a. is_space c) \<and> (\<forall>c \<in> set b. is_space c)"
proof -
  let ?t = "dropWhile is_space s"
  have "strip s @ rev (takeWhile is_space (rev ?t))
          = rev (takeWhile is_space (rev ?t) @ dropWhile is_space (rev ?t))"
    by (simp only: strip_def rev_append)
  also have "\<dots> = rev (rev ?t)"
    by (simp only: takeWhile_dropWhile_id)
  finally have t: "strip s @ rev (takeWhile is_space (rev ?t)) = ?t"
    by simp
  have "s = takeWhile is_space s @ ?t"
    by simp
  with t have "s = takeWhile is_space s @ strip s @ rev (takeWhile is_space (rev ?t))"
    by simp
  moreover have "\<forall>c \<in> set (takeWhile is_space s). is_space c"
    by (auto dest: set_takeWhileD)
  moreover have "\<forall>c \<in> set (rev (takeWhile is_space (rev ?t))). is_space c"
    by (auto dest: set_takeWhileD)
  ultimately show ?thesis
    by blast
qed

section \<open>Classification and collection\<close>

lemma add_subdomain_fst:
  "fst (add_subdomain h s) = (if CHR ''*'' \<in> set h then fst s else insert h (fst s))"
  by (cases s) (simp add: add_subdomain_def)

lemma add_subdomain_snd:
  "snd (add_subdomain h s) = (if CHR ''*'' \<in> set h then insert h (snd s) else snd s)"
  by (cases s) (simp add: add_subdomain_def)

lemma add_subnames_fst:
  "fst (add_subnames xs s) = fst s \<union> {h \<in> strip ` set xs. CHR ''*'' \<notin> set h}"
  by (induction xs arbitrary: s) (auto simp: add_subdomain_fst)

lemma add_subnames_snd:
  "snd (add_subnames xs s) = snd s \<union> {h \<in> strip ` set xs. CHR ''*'' \<in> set h}"
  by (induction xs arbitrary: s) (auto simp: add_subdomain_snd)

lemma process_entries_sets:
  "process_entries es s = Inr s' \<Longrightarrow>
     fst s' = fst s \<union> {h \<in> set (hostnames es). CHR ''*'' \<notin> set h} \<and>
     snd s' = snd s \<union> {h \<in> set (hostnames es). CHR ''*'' \<in> set h}"
proof (induction es arbitrary: s)
  case Nil
  then show ?case by simp
next
  case (Cons e es)
  then obtain subnames where sub: "entry_subnames e = Inr subnames"
    and rest: "process_entries es (add_subnames subnames s) = Inr s'"
    by (auto split: sum.splits)
  from Cons.IH [OF rest] sub show ?case
    by (auto simp: add_subnames_fst add_subnames_snd)
qed

lemma separated_empty: "separated ({}, {})"
  by (simp add: separated_def)

lemma separated_process_entries:
  "process_entries es s = Inr s' \<Longrightarrow> separated s \<Longrightarrow> separated s'"
  by (drule process_entries_sets) (auto simp: separated_def)

lemma separated_process_json:
  "process_json j s = Inr s' \<Longrightarrow> separated s \<Longrightarrow> separated s'"
  by (auto simp: process_json_def split: sum.splits dest: separated_process_entries)

lemma separated_expand:
  "expand http verbose ua timeout rl ws s st = (Inr s', st') \<Longrightarrow> separated s \<Longrightarrow> separated s'"
proof (induction ws arbitrary: s st)
  case Nil
  then show ?case by simp
next
  case (Cons w ws)
  from Cons.prems(1) obtain j st1
    where f: "fetch_subdomains http (replace_star w) ua timeout verbose rl st = (Inr j, st1)"
    by (auto split: prod.splits sum.splits)
  show ?case
  proof (cases "truthy j")
    case False
    with Cons.prems f have "expand http verbose ua timeout rl ws s st1 = (Inr s', st')" by simp
    then show ?thesis using Cons.IH Cons.prems(2) by blast
  next
    case True
    with Cons.prems f obtain s1 where p: "process_json j s = Inr s1"
      and e: "expand http verbose ua timeout rl ws s1 st1 = (Inr s', st')"
      by (auto split: sum.splits)
    from separated_process_json [OF p Cons.prems(2)] Cons.IH [OF e] show ?thesis by blast
  qed
qed

lemma splitlines_Nil: "splitlines [] = []"
  by (simp add: splitlines_def)

text \<open>
  C5. Classification of a hostname depends on the string alone: a hostname that contains
  \<open>*\<close> goes into the wildcard set, any other hostname into the concrete set, and nothing
  else in the two sets changes.
\<close>

theorem add_subdomain_classifies:
  "(CHR ''*'' \<in> set h \<longrightarrow> add_subdomain h (C, W) = (C, insert h W)) \<and>
   (CHR ''*'' \<notin> set h \<longrightarrow> add_subdomain h (C, W) = (insert h C, W))"
  by (simp add: add_subdomain_def)

theorem add_subdomain_classifies_witness:
  "CHR ''*'' \<in> set ''*.a.b'' \<and>
   add_subdomain ''*.a.b'' ({''a.b''}, {}) = ({''a.b''}, {''*.a.b''}) \<and>
   CHR ''*'' \<notin> set ''c.a.b'' \<and>
   add_subdomain ''c.a.b'' ({''a.b''}, {}) = ({''c.a.b'', ''a.b''}, {})"
  using add_subdomain_classifies [of "''*.a.b''" "{''a.b''}" "{}"]
    add_subdomain_classifies [of "''c.a.b''" "{''a.b''}" "{}"]
  by simp

text \<open>
  C2. For the concrete set \<open>C\<close> and the wildcard set \<open>W\<close> that the collection ends with
  (the root records, then any expansion), the merge step gives \<open>C\<close>, with no member of
  \<open>W\<close> in it, whenever \<open>exclude_wildcards\<close> is set, whatever \<open>wildcard\<close> is; \<open>C \<union> W\<close>
  when only \<open>wildcard\<close> is set; and \<open>C\<close> when neither is set. The union comes before the
  subtraction.
\<close>

theorem merge_order:
  assumes "process_json jsondata ({}, {}) = Inr s1"
    and "expand http verbose user_agent timeout rate_limit ws s1 st1 = (Inr (C, W), st2)"
  shows "merge_wildcards wildcard True (C, W) = C \<and>
         merge_wildcards wildcard True (C, W) \<inter> W = {} \<and>
         merge_wildcards True False (C, W) = C \<union> W \<and>
         merge_wildcards False False (C, W) = C"
proof -
  have "separated (C, W)"
    using separated_expand [OF assms(2)] separated_process_json [OF assms(1)] separated_empty
    by blast
  then have disjoint: "C \<inter> W = {}"
    by (auto simp: separated_def)
  then have "merge_wildcards wildcard True (C, W) = C"
    by (auto simp: merge_wildcards_def)
  moreover from this disjoint have "merge_wildcards wildcard True (C, W) \<inter> W = {}"
    by simp
  moreover have "merge_wildcards True False (C, W) = C \<union> W"
    by (simp add: merge_wildcards_def)
  moreover have "merge_wildcards False False (C, W) = C"
    by (simp add: merge_wildcards_def)
  ultimately show ?thesis by blast
qed

theorem merge_order_witness:
  "process_json (JArr [JObj [(''name_value'', JStr ''a.b\<newline>*.b'')]]) ({}, {})
     = Inr ({''a.b''}, {''*.b''}) \<and>
   expand (serve [(BASE_URL ''%25.b'', Response 200 NoHeader (JArr [JObj [(''name_value'', JStr ''c.b'')]]))])
       False ''ua'' 25 0 [''*.b''] ({''a.b''}, {''*.b''}) (start ())
     = (Inr ({''a.b'', ''c.b''}, {''*.b''}), \<lparr>world = (), fetched = [''%25.b''], sent = 1\<rparr>) \<and>
   merge_wildcards True True ({''a.b'', ''c.b''}, {''*.b''}) = {''a.b'', ''c.b''} \<and>
   merge_wildcards True True ({''a.b'', ''c.b''}, {''*.b''}) \<inter> {''*.b''} = {} \<and>
   merge_wildcards True False ({''a.b'', ''c.b''}, {''*.b''}) = {''a.b'', ''c.b''} \<union> {''*.b''} \<and>
   merge_wildcards False False ({''a.b'', ''c.b''}, {''*.b''}) = {''a.b'', ''c.b''}"
proof -
  have h1: "process_json (JArr [JObj [(''name_value'', JStr ''a.b\<newline>*.b'')]]) ({}, {})
     = Inr ({''a.b''}, {''*.b''})"
    by code_simp
  have h2: "expand (serve [(BASE_URL ''%25.b'', Response 200 NoHeader (JArr [JObj [(''name_value'', JStr ''c.b'')]]))])
       False ''ua'' 25 0 [''*.b''] ({''a.b''}, {''*.b''}) (start ())
     = (Inr ({''a.b'', ''c.b''}, {''*.b''}), \<lparr>world = (), fetched = [''%25.b''], sent = 1\<rparr>)"
    by code_simp
  from merge_order [OF h1 h2, of True] h1 h2 show ?thesis
    by blast
qed

text \<open>
  C10. A record without the \<open>name_value\<close> field yields no hostname and raises nothing, and
  the loop over the records goes on as if the record were not there.
\<close>

theorem missing_name_value_skipped:
  assumes "map_of kvs ''name_value'' = None"
  shows "entry_subnames (JObj kvs) = Inr [] \<and>
         process_entries (pre @ JObj kvs # post) s = process_entries (pre @ post) s"
proof -
  have e: "entry_subnames (JObj kvs) = Inr []"
    using assms by (simp add: splitlines_Nil)
  have "process_entries (pre @ JObj kvs # post) s = process_entries (pre @ post) s"
    by (induction pre arbitrary: s) (simp_all add: e del: entry_subnames.simps split: sum.splits)
  with e show ?thesis by blast
qed

theorem missing_name_value_skipped_witness:
  "map_of [(''id'', JNum 7)] ''name_value'' = None \<and>
   entry_subnames (JObj [(''id'', JNum 7)]) = Inr [] \<and>
   process_entries ([JObj [(''name_value'', JStr ''a.b'')]] @ JObj [(''id'', JNum 7)]
        # [JObj [(''name_value'', JStr ''*.b'')]]) ({}, {})
     = process_entries ([JObj [(''name_value'', JStr ''a.b'')]] @ [JObj [(''name_value'', JStr ''*.b'')]])
         ({}, {}) \<and>
   process_entries ([JObj [(''name_value'', JStr ''a.b'')]] @ [JObj [(''name_value'', JStr ''*.b'')]])
         ({}, {}) = Inr ({''a.b''}, {''*.b''})"
proof -
  have h: "map_of [(''id'', JNum 7)] ''name_value'' = None"
    by simp
  have v: "process_entries ([JObj [(''name_value'', JStr ''a.b'')]] @ [JObj [(''name_value'', JStr ''*.b'')]])
         ({}, {}) = Inr ({''a.b''}, {''*.b''})"
    by code_simp
  from missing_name_value_skipped [OF h, of "[JObj [(''name_value'', JStr ''a.b'')]]"
      "[JObj [(''name_value'', JStr ''*.b'')]]" "({}, {})"] h v
  show ?thesis by blast
qed

text \<open>
  C8. The value of the technique flag never reaches the pipeline: two runs that differ
  only in it print the same lines, write the same file and send the same requests.
\<close>

theorem technique_ignored:
  "main http order (a\<lparr>arg_technique := t\<rparr>) st = main http order a st"
  by (simp add: main_def split: prod.splits sum.splits)

section \<open>The extension filter\<close>

lemma endswith_suffix: "endswith s suf = suffix suf s"
proof
  assume "endswith s suf"
  then have "s = take (length s - length suf) s @ suf"
    by (metis append_take_drop_id endswith_def)
  then show "suffix suf s"
    by (metis suffixI)
next
  assume "suffix suf s"
  then obtain zs where "s = zs @ suf"
    by (auto simp: suffix_def)
  then show "endswith s suf"
    by (simp add: endswith_def)
qed

lemma matches_extension_iff:
  "matches_extension h exts = (\<exists>e \<in> set exts. suffix (''.'' @ strip e) h)"
  by (induction exts) (simp_all add: endswith_suffix)

lemma filter_extensions_Some:
  "x \<noteq> [] \<Longrightarrow>
     filter_extensions (Some x) M = {h \<in> M. \<exists>e \<in> set (split CHR '','' x). suffix (''.'' @ strip e) h}"
  by (auto simp: filter_extensions_def matches_extension_iff)

lemma filter_extensions_empty: "filter_extensions ext {} = {}"
  by (auto simp: filter_extensions_def split: option.splits)

lemma filter_extensions_none:
  "filter_extensions None M = M" "filter_extensions (Some []) M = M"
  by (simp_all add: filter_extensions_def)

lemma process_subdomains_extensions:
  "process_subdomains http order domain recursive wildcard exclude verbose ua timeout rl ext st =
     (case process_subdomains http order domain recursive wildcard exclude verbose ua timeout rl None st of
        (Inl e, st') \<Rightarrow> (Inl e, st')
      | (Inr M, st') \<Rightarrow> (Inr (filter_extensions ext M), st'))"
  by (simp add: process_subdomains_def filter_extensions_empty filter_extensions_none
      split: prod.splits sum.splits)

text \<open>
  C4. With a non-empty extension list, the final set is the unfiltered result restricted to
  the hostnames that end with \<open>.\<close> followed by one of the comma-separated entries, each
  entry trimmed; every other hostname is dropped. Without a list (none given, or the empty
  string) the set is left as it is.
\<close>

theorem extension_filter:
  assumes "process_subdomains http order domain recursive wildcard exclude_wildcards verbose
             user_agent timeout rate_limit None st = (Inr M, st')"
  shows "(x \<noteq> [] \<longrightarrow>
            process_subdomains http order domain recursive wildcard exclude_wildcards verbose
              user_agent timeout rate_limit (Some x) st
            = (Inr {h \<in> M. \<exists>e \<in> set (split CHR '','' x). suffix (''.'' @ strip e) h}, st')) \<and>
         process_subdomains http order domain recursive wildcard exclude_wildcards verbose
              user_agent timeout rate_limit (Some []) st = (Inr M, st') \<and>
         filter_extensions None M = M"
proof -
  have "process_subdomains http order domain recursive wildcard exclude_wildcards verbose
          user_agent timeout rate_limit ext st = (Inr (filter_extensions ext M), st')" for ext
    using assms
    by (subst process_subdomains_extensions) simp
  then show ?thesis
    by (simp add: filter_extensions_Some filter_extensions_none)
qed

theorem extension_filter_witness:
  "process_subdomains
       (serve [(BASE_URL ''e.c'', Response 200 NoHeader
                  (JArr [JObj [(''name_value'', JStr ''a.e.com\<newline>b.e.org'')]]))])
       sorted_list_of_set ''e.c'' False False False False ''ua'' 25 0 None (start ())
     = (Inr {''a.e.com'', ''b.e.org''}, \<lparr>world = (), fetched = [''e.c''], sent = 1\<rparr>) \<and>
   ''org'' \<noteq> [] \<and>
   process_subdomains
       (serve [(BASE_URL ''e.c'', Response 200 NoHeader
                  (JArr [JObj [(''name_value'', JStr ''a.e.com\<newline>b.e.org'')]]))])
       sorted_list_of_set ''e.c'' False False False False ''ua'' 25 0 (Some ''org'') (start ())
     = (Inr {h \<in> {''a.e.com'', ''b.e.org''}.
              \<exists>e \<in> set (split CHR '','' ''org''). suffix (''.'' @ strip e) h},
        \<lparr>world = (), fetched = [''e.c''], sent = 1\<rparr>) \<and>
   {h \<in> {''a.e.com'', ''b.e.org''}. \<exists>e \<in> set (split CHR '','' ''org''). suffix (''.'' @ strip e) h}
     = {''b.e.org''}"
proof -
  have h: "process_subdomains
       (serve [(BASE_URL ''e.c'', Response 200 NoHeader
                  (JArr [JObj [(''name_value'', JStr ''a.e.com\<newline>b.e.org'')]]))])
       sorted_list_of_set ''e.c'' False False False False ''ua'' 25 0 None (start ())
     = (Inr {''a.e.com'', ''b.e.org''}, \<lparr>world = (), fetched = [''e.c''], sent = 1\<rparr>)"
    by code_simp
  have s: "split CHR '','' ''org'' = [''org'']"
    by code_simp
  have t: "strip ''org'' = ''org''"
    by code_simp
  have v: "{h \<in> {''a.e.com'', ''b.e.org''}. \<exists>e \<in> set (split CHR '','' ''org''). suffix (''.'' @ strip e) h}
     = {''b.e.org''}"
    by (auto simp: s t endswith_suffix [symmetric] endswith_def)
  from extension_filter [OF h, of "''org''"] h v show ?thesis
    by simp
qed

section \<open>Blank lines\<close>

lemma strip_all_space:
  assumes "\<forall>c \<in> set line. is_space c"
  shows "strip line = []"
  using assms by (auto simp: strip_def dest: set_dropWhileD)

lemma hostnames_mem:
  "process_entries es s = Inr s' \<Longrightarrow> e \<in> set es \<Longrightarrow> entry_subnames e = Inr subs \<Longrightarrow>
     x \<in> set subs \<Longrightarrow> strip x \<in> set (hostnames es)"
proof (induction es arbitrary: s)
  case Nil
  then show ?case by simp
next
  case (Cons a es)
  from Cons.prems(1) obtain as where a: "entry_subnames a = Inr as"
    and rest: "process_entries es (add_subnames as s) = Inr s'"
    by (auto split: sum.splits)
  show ?case
  proof (cases "e = a")
    case True
    with a Cons.prems(3,4) show ?thesis by auto
  next
    case False
    with Cons.prems(2) have "e \<in> set es" by simp
    from Cons.IH [OF rest this Cons.prems(3,4)] a show ?thesis by simp
  qed
qed

lemma process_json_mono:
  "process_json j s = Inr s' \<Longrightarrow> fst s \<subseteq> fst s' \<and> snd s \<subseteq> snd s'"
  by (auto simp: process_json_def split: sum.splits dest!: process_entries_sets)

lemma expand_mono:
  "expand http verbose ua timeout rl ws s st = (Inr s', st') \<Longrightarrow> fst s \<subseteq> fst s' \<and> snd s \<subseteq> snd s'"
proof (induction ws arbitrary: s st)
  case Nil
  then show ?case by simp
next
  case (Cons w ws)
  from Cons.prems(1) obtain j st1
    where f: "fetch_subdomains http (replace_star w) ua timeout verbose rl st = (Inr j, st1)"
    by (auto split: prod.splits sum.splits)
  show ?case
  proof (cases "truthy j")
    case False
    with Cons.prems f have "expand http verbose ua timeout rl ws s st1 = (Inr s', st')" by simp
    then show ?thesis using Cons.IH by blast
  next
    case True
    with Cons.prems f obtain s1 where p: "process_json j s = Inr s1"
      and e: "expand http verbose ua timeout rl ws s1 st1 = (Inr s', st')"
      by (auto split: sum.splits)
    from process_json_mono [OF p] Cons.IH [OF e] show ?thesis by blast
  qed
qed

lemma process_subdomains_Inr:
  assumes "fetch_subdomains http domain ua timeout verbose rl st = (Inr jsondata, st1)"
    and "truthy jsondata"
    and "process_subdomains http order domain recursive wildcard exclude verbose ua timeout rl ext st
           = (Inr S, st')"
  obtains s1 s2 where "process_json jsondata ({}, {}) = Inr s1"
    and "expand http verbose ua timeout rl (if recursive then order (snd s1) else []) s1 st1
           = (Inr s2, st')"
    and "S = filter_extensions ext (merge_wildcards wildcard exclude s2)"
  using assms
  by (auto simp: process_subdomains_def split: sum.splits prod.splits if_splits)

text \<open>
  C9. A line of a root record's \<open>name_value\<close> that holds only whitespace (or nothing)
  is trimmed to the empty string, which is classified as concrete; when the run succeeds
  and no extension filter is active, the empty string is a member of the final set,
  whatever the wildcard flags are.
\<close>

theorem blank_line_survives:
  assumes "fetch_subdomains http domain user_agent timeout verbose rate_limit st
             = (Inr (JArr records), st1)"
    and "JObj kvs \<in> set records"
    and "map_of kvs ''name_value'' = Some (JStr name_value)"
    and "line \<in> set (splitlines name_value)"
    and "\<forall>c \<in> set line. is_space c"
    and "extensions = None \<or> extensions = Some []"
    and "process_subdomains http order domain recursive wildcard exclude_wildcards verbose
           user_agent timeout rate_limit extensions st = (Inr S, st')"
  shows "strip line = [] \<and> add_subdomain (strip line) (C, W) = (insert [] C, W) \<and> [] \<in> S"
proof -
  have blank: "strip line = []"
    using assms(5) by (rule strip_all_space)
  have "truthy (JArr records)"
    using assms(2) by auto
  from process_subdomains_Inr [OF assms(1) this assms(7)]
  obtain s1 s2 where root: "process_json (JArr records) ({}, {}) = Inr s1"
    and loop: "expand http verbose user_agent timeout rate_limit
                 (if recursive then order (snd s1) else []) s1 st1 = (Inr s2, st')"
    and S: "S = filter_extensions extensions (merge_wildcards wildcard exclude_wildcards s2)"
    by blast
  from root have entries: "process_entries records ({}, {}) = Inr s1"
    by (simp add: process_json_def)
  have sub: "entry_subnames (JObj kvs) = Inr (splitlines name_value)"
    using assms(3) by simp
  have "strip line \<in> set (hostnames records)"
    using hostnames_mem [OF entries assms(2) sub assms(4)] .
  with blank process_entries_sets [OF entries] have "[] \<in> fst s1"
    by simp
  with expand_mono [OF loop] have in2: "[] \<in> fst s2"
    by blast
  have "separated s2"
    using separated_expand [OF loop] separated_process_json [OF root] separated_empty by blast
  then have "[] \<notin> snd s2"
    by (auto simp: separated_def)
  with in2 have "[] \<in> merge_wildcards wildcard exclude_wildcards s2"
    by (cases s2) (auto simp: merge_wildcards_def)
  with S assms(6) have "[] \<in> S"
    by (auto simp: filter_extensions_none)
  with blank show ?thesis
    by (simp add: add_subdomain_def)
qed

theorem blank_line_survives_witness:
  "fetch_subdomains
       (serve [(BASE_URL ''e.c'', Response 200 NoHeader (JArr [JObj [(''name_value'', JStr ''a.e.c\<newline> \<newline>*.e.c'')]]))])
       ''e.c'' ''ua'' 25 False 0 (start ())
     = (Inr (JArr [JObj [(''name_value'', JStr ''a.e.c\<newline> \<newline>*.e.c'')]]),
        \<lparr>world = (), fetched = [''e.c''], sent = 1\<rparr>) \<and>
   JObj [(''name_value'', JStr ''a.e.c\<newline> \<newline>*.e.c'')]
     \<in> set [JObj [(''name_value'', JStr ''a.e.c\<newline> \<newline>*.e.c'')]] \<and>
   map_of [(''name_value'', JStr ''a.e.c\<newline> \<newline>*.e.c'')] ''name_value''
     = Some (JStr ''a.e.c\<newline> \<newline>*.e.c'') \<and>
   '' '' \<in> set (splitlines ''a.e.c\<newline> \<newline>*.e.c'') \<and>
   list_all is_space '' '' \<and>
   process_subdomains
       (serve [(BASE_URL ''e.c'', Response 200 NoHeader (JArr [JObj [(''name_value'', JStr ''a.e.c\<newline> \<newline>*.e.c'')]]))])
       sorted_list_of_set ''e.c'' False False True False ''ua'' 25 0 None (start ())
     = (Inr {''a.e.c'', ''''}, \<lparr>world = (), fetched = [''e.c''], sent = 1\<rparr>) \<and>
   strip '' '' = [] \<and>
   add_subdomain (strip '' '') ({''a.e.c''}, {}) = (insert [] {''a.e.c''}, {}) \<and>
   [] \<in> {''a.e.c'', ''''}"
proof -
  have h1: "fetch_subdomains
       (serve [(BASE_URL ''e.c'', Response 200 NoHeader (JArr [JObj [(''name_value'', JStr ''a.e.c\<newline> \<newline>*.e.c'')]]))])
       ''e.c'' ''ua'' 25 False 0 (start ())
     = (Inr (JArr [JObj [(''name_value'', JStr ''a.e.c\<newline> \<newline>*.e.c'')]]),
        \<lparr>world = (), fetched = [''e.c''], sent = 1\<rparr>)"
    by code_simp
  have h2: "JObj [(''name_value'', JStr ''a.e.c\<newline> \<newline>*.e.c'')]
     \<in> set [JObj [(''name_value'', JStr ''a.e.c\<newline> \<newline>*.e.c'')]]"
    by simp
  have h3: "map_of [(''name_value'', JStr ''a.e.c\<newline> \<newline>*.e.c'')] ''name_value''
     = Some (JStr ''a.e.c\<newline> \<newline>*.e.c'')"
    by simp
  have h4: "'' '' \<in> set (splitlines ''a.e.c\<newline> \<newline>*.e.c'')"
    by code_simp
  have h5': "list_all is_space '' ''"
    by code_simp
  then have h5: "\<forall>c \<in> set '' ''. is_space c"
    by simp
  have h6: "(None :: string option) = None \<or> None = Some []"
    by simp
  have h7: "process_subdomains
       (serve [(BASE_URL ''e.c'', Response 200 NoHeader (JArr [JObj [(''name_value'', JStr ''a.e.c\<newline> \<newline>*.e.c'')]]))])
       sorted_list_of_set ''e.c'' False False True False ''ua'' 25 0 None (start ())
     = (Inr {''a.e.c'', ''''}, \<lparr>world = (), fetched = [''e.c''], sent = 1\<rparr>)"
    by code_simp
  from blank_line_survives [OF h1 h2 h3 h4 h5 h6 h7, of "{''a.e.c''}" "{}"] h1 h2 h3 h4 h5' h7
  show ?thesis
    by blast
qed

section \<open>The output file\<close>

text \<open>
  C7. With format \<open>json\<close> the file holds one object whose only field \<open>subdomains\<close> is the
  list of the members of the set, each once. With format \<open>csv\<close>, or with no format, it
  holds the members in lexicographic order, one per line, each followed by a newline.
  Here \<open>order\<close> is the order in which \<open>list(subdomains)\<close> walks the set.
\<close>

theorem save_to_file_formats:
  assumes "finite S" and "set (order S) = S" and "distinct (order S)"
  shows "(\<exists>xs. save_to_file order S (Some ''json'')
                 = JsonDump (JObj [(''subdomains'', JArr (map JStr xs))]) \<and>
               set xs = S \<and> distinct xs) \<and>
         (\<exists>ys. save_to_file order S (Some ''csv'')
                 = Text (concat (map (\<lambda>h. h @ [CHR 0x0A]) ys)) \<and>
               save_to_file order S None = Text (concat (map (\<lambda>h. h @ [CHR 0x0A]) ys)) \<and>
               sorted ys \<and> distinct ys \<and> set ys = S)"
proof (intro conjI)
  show "\<exists>xs. save_to_file order S (Some ''json'')
                 = JsonDump (JObj [(''subdomains'', JArr (map JStr xs))]) \<and>
               set xs = S \<and> distinct xs"
    using assms(2,3) by (intro exI [of _ "order S"]) (simp add: save_to_file_def)
  show "\<exists>ys. save_to_file order S (Some ''csv'')
                 = Text (concat (map (\<lambda>h. h @ [CHR 0x0A]) ys)) \<and>
               save_to_file order S None = Text (concat (map (\<lambda>h. h @ [CHR 0x0A]) ys)) \<and>
               sorted ys \<and> distinct ys \<and> set ys = S"
    using assms(1) by (intro exI [of _ "sorted_list_of_set S"]) (simp add: save_to_file_def)
qed

theorem save_to_file_formats_witness:
  "finite {''x.e.c'', ''a.e.c''} \<and>
   set (sorted_list_of_set {''x.e.c'', ''a.e.c''}) = {''x.e.c'', ''a.e.c''} \<and>
   distinct (sorted_list_of_set {''x.e.c'', ''a.e.c''}) \<and>
   (\<exists>xs. save_to_file sorted_list_of_set {''x.e.c'', ''a.e.c''} (Some ''json'')
                 = JsonDump (JObj [(''subdomains'', JArr (map JStr xs))]) \<and>
               set xs = {''x.e.c'', ''a.e.c''} \<and> distinct xs) \<and>
   (\<exists>ys. save_to_file sorted_list_of_set {''x.e.c'', ''a.e.c''} (Some ''csv'')
                 = Text (concat (map (\<lambda>h. h @ [CHR 0x0A]) ys)) \<and>
               save_to_file sorted_list_of_set {''x.e.c'', ''a.e.c''} None
                 = Text (concat (map (\<lambda>h. h @ [CHR 0x0A]) ys)) \<and>
               sorted ys \<and> distinct ys \<and> set ys = {''x.e.c'', ''a.e.c''}) \<and>
   save_to_file sorted_list_of_set {''x.e.c'', ''a.e.c''} None = Text ''a.e.c\<newline>x.e.c\<newline>'' \<and>
   save_to_file sorted_list_of_set {''x.e.c'', ''a.e.c''} (Some ''json'')
     = JsonDump (JObj [(''subdomains'', JArr [JStr ''a.e.c'', JStr ''x.e.c''])])"
proof -
  have h1: "finite {''x.e.c'', ''a.e.c''}"
    by simp
  have h2: "set (sorted_list_of_set {''x.e.c'', ''a.e.c''}) = {''x.e.c'', ''a.e.c''}"
    by auto
  have h3: "distinct (sorted_list_of_set {''x.e.c'', ''a.e.c''})"
    by simp
  have v1: "save_to_file sorted_list_of_set {''x.e.c'', ''a.e.c''} None = Text ''a.e.c\<newline>x.e.c\<newline>''"
    by code_simp
  have v2: "save_to_file sorted_list_of_set {''x.e.c'', ''a.e.c''} (Some ''json'')
     = JsonDump (JObj [(''subdomains'', JArr [JStr ''a.e.c'', JStr ''x.e.c''])])"
    by code_simp
  from save_to_file_formats [of "{''x.e.c'', ''a.e.c''}" sorted_list_of_set, OF h1 h2 h3] h1 h2 h3 v1 v2
  show ?thesis
    by blast
qed

section \<open>Recursive expansion\<close>

lemma fetch_subdomains_fetched:
  "fetch_subdomains http domain ua timeout verbose rl st = (j, st') \<Longrightarrow>
     fetched st' = fetched st @ [domain]"
  by (auto simp: fetch_subdomains_def Let_def split: prod.splits sum.splits if_splits)

lemma expand_Cons_error:
  "fetch_subdomains http (replace_star w) ua timeout verbose rl st = (Inl e, st1) \<Longrightarrow>
     expand http verbose ua timeout rl (w # ws) s st = (Inl e, st1)"
  by simp

lemma expand_Cons_falsy:
  "fetch_subdomains http (replace_star w) ua timeout verbose rl st = (Inr j, st1) \<Longrightarrow> \<not> truthy j \<Longrightarrow>
     expand http verbose ua timeout rl (w # ws) s st = expand http verbose ua timeout rl ws s st1"
  by simp

lemma expand_Cons_truthy:
  "fetch_subdomains http (replace_star w) ua timeout verbose rl st = (Inr j, st1) \<Longrightarrow> truthy j \<Longrightarrow>
     expand http verbose ua timeout rl (w # ws) s st =
       (case process_json j s of
          Inl e \<Rightarrow> (Inl e, st1)
        | Inr s' \<Rightarrow> expand http verbose ua timeout rl ws s' st1)"
  by simp


lemma expand_fetched:
  "expand http verbose ua timeout rl ws s st = (Inr s', st') \<Longrightarrow>
     fetched st' = fetched st @ map replace_star ws"
proof (induction ws arbitrary: s st)
  case Nil
  then show ?case by simp
next
  case (Cons w ws)
  from Cons.prems(1) obtain j st1
    where f: "fetch_subdomains http (replace_star w) ua timeout verbose rl st = (Inr j, st1)"
    by (auto split: prod.splits sum.splits)
  have "\<exists>s1. expand http verbose ua timeout rl ws s1 st1 = (Inr s', st')"
  proof (cases "truthy j")
    case False
    from Cons.prems show ?thesis
      unfolding expand_Cons_falsy [OF f False] by blast
  next
    case True
    from Cons.prems show ?thesis
      unfolding expand_Cons_truthy [OF f True] by (cases "process_json j s") auto
  qed
  then obtain s1 where e: "expand http verbose ua timeout rl ws s1 st1 = (Inr s', st')"
    by blast
  from Cons.IH [OF e] fetch_subdomains_fetched [OF f] show ?case
    by simp
qed

lemma expand_append:
  "expand http verbose ua timeout rl (xs @ ys) s st =
     (case expand http verbose ua timeout rl xs s st of
        (Inl e, st1) \<Rightarrow> (Inl e, st1)
      | (Inr s1, st1) \<Rightarrow> expand http verbose ua timeout rl ys s1 st1)"
proof (induction xs arbitrary: s st)
  case Nil
  then show ?case by simp
next
  case (Cons w ws)
  obtain r st1 where f: "fetch_subdomains http (replace_star w) ua timeout verbose rl st = (r, st1)"
    by (cases "fetch_subdomains http (replace_star w) ua timeout verbose rl st")
  show ?case
  proof (cases r)
    case (Inl e)
    show ?thesis
      unfolding append_Cons expand_Cons_error [OF f [unfolded Inl]] by simp
  next
    case (Inr j)
    note g = f [unfolded Inr]
    show ?thesis
    proof (cases "truthy j")
      case False
      show ?thesis
        unfolding append_Cons expand_Cons_falsy [OF g False] by (rule Cons.IH)
    next
      case True
      show ?thesis
        unfolding append_Cons expand_Cons_truthy [OF g True]
        by (cases "process_json j s") (simp_all add: Cons.IH del: expand.simps)
    qed
  qed
qed


lemma process_json_wildcards:
  "process_json (JArr records) s = Inr s' \<Longrightarrow>
     {h \<in> set (hostnames records). CHR ''*'' \<in> set h} \<subseteq> snd s'"
  by (auto simp: process_json_def dest!: process_entries_sets)

lemma expand_adds_wildcards:
  assumes all: "expand http verbose ua timeout rl (pre @ w # post) s st = (Inr s', st')"
    and before: "expand http verbose ua timeout rl pre s st = (Inr sa, sta)"
    and resp: "fetch_subdomains http (replace_star w) ua timeout verbose rl sta
                 = (Inr (JArr records), stb)"
  shows "{h \<in> set (hostnames records). CHR ''*'' \<in> set h} \<subseteq> snd s'"
proof (cases "records = []")
  case True
  then show ?thesis by simp
next
  case False
  then have t: "truthy (JArr records)"
    by simp
  from all before have step: "expand http verbose ua timeout rl (w # post) sa sta = (Inr s', st')"
    by (simp add: expand_append del: expand.simps)
  then have "\<exists>sb. process_json (JArr records) sa = Inr sb \<and>
                 expand http verbose ua timeout rl post sb stb = (Inr s', st')"
    unfolding expand_Cons_truthy [OF resp t]
    by (cases "process_json (JArr records) sa") auto
  then obtain sb where p: "process_json (JArr records) sa = Inr sb"
    and rest: "expand http verbose ua timeout rl post sb stb = (Inr s', st')"
    by blast
  from process_json_wildcards [OF p] expand_mono [OF rest] show ?thesis
    by blast
qed


text \<open>
  C3. In recursive mode, after a root fetch that returned records, the queries sent are the
  root domain followed by one query for each wildcard hostname that the root records put
  into the wildcard set, each formed by replacing every \<open>*\<close> with \<open>%25\<close>, and none
  besides. The wildcard hostnames that these recursive fetches return are added to the
  wildcard set, yet no query is sent for them: the list of queries depends on the
  snapshot only. Here \<open>order\<close> is the order in which \<open>list(wildcard_subdomains)\<close> walks
  the set.
\<close>

theorem recursion_one_level:
  assumes root: "fetch_subdomains http domain user_agent timeout verbose rate_limit st
                   = (Inr jsondata, st1)"
    and nonempty: "truthy jsondata"
    and first: "process_json jsondata ({}, {}) = Inr (C0, W0)"
    and snapshot: "set (order W0) = W0 \<and> distinct (order W0)"
    and loop: "expand http verbose user_agent timeout rate_limit (order W0) (C0, W0) st1
                 = (Inr (C, W), st2)"
  shows "process_subdomains http order domain True wildcard exclude_wildcards verbose user_agent
             timeout rate_limit extensions st
           = (Inr (filter_extensions extensions (merge_wildcards wildcard exclude_wildcards (C, W))), st2) \<and>
         fetched st2 = fetched st @ domain # map replace_star (order W0) \<and>
         set (drop (Suc (length (fetched st))) (fetched st2)) = replace_star ` W0 \<and>
         length (fetched st2) = length (fetched st) + 1 + card W0 \<and>
         W0 \<subseteq> W \<and>
         (\<forall>pre w post sa sta records stb.
            order W0 = pre @ w # post \<and>
            expand http verbose user_agent timeout rate_limit pre (C0, W0) st1 = (Inr sa, sta) \<and>
            fetch_subdomains http (replace_star w) user_agent timeout verbose rate_limit sta
              = (Inr (JArr records), stb)
            \<longrightarrow> {h \<in> set (hostnames records). CHR ''*'' \<in> set h} \<subseteq> W)"
proof (intro conjI allI impI)
  show "process_subdomains http order domain True wildcard exclude_wildcards verbose user_agent
             timeout rate_limit extensions st
           = (Inr (filter_extensions extensions (merge_wildcards wildcard exclude_wildcards (C, W))), st2)"
    using root nonempty first loop by (simp add: process_subdomains_def del: expand.simps)
  show log: "fetched st2 = fetched st @ domain # map replace_star (order W0)"
    using expand_fetched [OF loop] fetch_subdomains_fetched [OF root] by simp
  show "set (drop (Suc (length (fetched st))) (fetched st2)) = replace_star ` W0"
    using snapshot by (simp add: log)
  have "card W0 = length (order W0)"
    using snapshot distinct_card [of "order W0"] by simp
  then show "length (fetched st2) = length (fetched st) + 1 + card W0"
    by (simp add: log)
  show "W0 \<subseteq> W"
    using expand_mono [OF loop] by simp
next
  fix pre w post sa sta records stb
  assume a: "order W0 = pre @ w # post \<and>
            expand http verbose user_agent timeout rate_limit pre (C0, W0) st1 = (Inr sa, sta) \<and>
            fetch_subdomains http (replace_star w) user_agent timeout verbose rate_limit sta
              = (Inr (JArr records), stb)"
  from a loop have all: "expand http verbose user_agent timeout rate_limit (pre @ w # post) (C0, W0) st1
                 = (Inr (C, W), st2)"
    by simp
  from a have before: "expand http verbose user_agent timeout rate_limit pre (C0, W0) st1 = (Inr sa, sta)"
    and resp: "fetch_subdomains http (replace_star w) user_agent timeout verbose rate_limit sta
              = (Inr (JArr records), stb)"
    by simp_all
  from expand_adds_wildcards [OF all before resp]
  show "{h \<in> set (hostnames records). CHR ''*'' \<in> set h} \<subseteq> W"
    by simp
qed

theorem recursion_one_level_witness:
  "fetch_subdomains
       (serve [(BASE_URL ''e.c'', Response 200 NoHeader (JArr [JObj [(''name_value'', JStr ''a.e.c\<newline>*.e.c'')]])),
               (BASE_URL ''%25.e.c'', Response 200 NoHeader (JArr [JObj [(''name_value'', JStr ''b.e.c\<newline>*.x.e.c'')]]))])
       ''e.c'' ''ua'' 25 False 0 (start ())
     = (Inr (JArr [JObj [(''name_value'', JStr ''a.e.c\<newline>*.e.c'')]]),
        \<lparr>world = (), fetched = [''e.c''], sent = 1\<rparr>) \<and>
   truthy (JArr [JObj [(''name_value'', JStr ''a.e.c\<newline>*.e.c'')]]) \<and>
   process_json (JArr [JObj [(''name_value'', JStr ''a.e.c\<newline>*.e.c'')]]) ({}, {})
     = Inr ({''a.e.c''}, {''*.e.c''}) \<and>
   set (sorted_list_of_set {''*.e.c''}) = {''*.e.c''} \<and>
   distinct (sorted_list_of_set {''*.e.c''}) \<and>
   expand
       (serve [(BASE_URL ''e.c'', Response 200 NoHeader (JArr [JObj [(''name_value'', JStr ''a.e.c\<newline>*.e.c'')]])),
               (BASE_URL ''%25.e.c'', Response 200 NoHeader (JArr [JObj [(''name_value'', JStr ''b.e.c\<newline>*.x.e.c'')]]))])
       False ''ua'' 25 0 (sorted_list_of_set {''*.e.c''}) ({''a.e.c''}, {''*.e.c''})
       \<lparr>world = (), fetched = [''e.c''], sent = 1\<rparr>
     = (Inr ({''a.e.c'', ''b.e.c''}, {''*.e.c'', ''*.x.e.c''}),
        \<lparr>world = (), fetched = [''e.c'', ''%25.e.c''], sent = 2\<rparr>) \<and>
   process_subdomains
       (serve [(BASE_URL ''e.c'', Response 200 NoHeader (JArr [JObj [(''name_value'', JStr ''a.e.c\<newline>*.e.c'')]])),
               (BASE_URL ''%25.e.c'', Response 200 NoHeader (JArr [JObj [(''name_value'', JStr ''b.e.c\<newline>*.x.e.c'')]]))])
       sorted_list_of_set ''e.c'' True True False False ''ua'' 25 0 None (start ())
     = (Inr (filter_extensions None
              (merge_wildcards True False ({''a.e.c'', ''b.e.c''}, {''*.e.c'', ''*.x.e.c''}))),
        \<lparr>world = (), fetched = [''e.c'', ''%25.e.c''], sent = 2\<rparr>) \<and>
   fetched \<lparr>world = (), fetched = [''e.c'', ''%25.e.c''], sent = 2\<rparr>
     = fetched (start ()) @ ''e.c'' # map replace_star (sorted_list_of_set {''*.e.c''}) \<and>
   length (fetched \<lparr>world = (), fetched = [''e.c'', ''%25.e.c''], sent = 2\<rparr>)
     = length (fetched (start ())) + 1 + card {''*.e.c''} \<and>
   {''*.e.c''} \<subseteq> {''*.e.c'', ''*.x.e.c''} \<and>
   {h \<in> set (hostnames [JObj [(''name_value'', JStr ''b.e.c\<newline>*.x.e.c'')]]). CHR ''*'' \<in> set h}
     \<subseteq> {''*.e.c'', ''*.x.e.c''}"
proof -
  let ?http = "serve [(BASE_URL ''e.c'', Response 200 NoHeader (JArr [JObj [(''name_value'', JStr ''a.e.c\<newline>*.e.c'')]])),
               (BASE_URL ''%25.e.c'', Response 200 NoHeader (JArr [JObj [(''name_value'', JStr ''b.e.c\<newline>*.x.e.c'')]]))]"
  let ?st1 = "\<lparr>world = (), fetched = [''e.c''], sent = 1\<rparr>"
  let ?st2 = "\<lparr>world = (), fetched = [''e.c'', ''%25.e.c''], sent = 2\<rparr>"
  have h1: "fetch_subdomains ?http ''e.c'' ''ua'' 25 False 0 (start ())
     = (Inr (JArr [JObj [(''name_value'', JStr ''a.e.c\<newline>*.e.c'')]]), ?st1)"
    by code_simp
  have h2: "truthy (JArr [JObj [(''name_value'', JStr ''a.e.c\<newline>*.e.c'')]])"
    by simp
  have h3: "process_json (JArr [JObj [(''name_value'', JStr ''a.e.c\<newline>*.e.c'')]]) ({}, {})
     = Inr ({''a.e.c''}, {''*.e.c''})"
    by code_simp
  have h4a: "set (sorted_list_of_set {''*.e.c''}) = {''*.e.c''}"
    by simp
  have h4b: "distinct (sorted_list_of_set {''*.e.c''})"
    by simp
  have h5: "expand ?http False ''ua'' 25 0 (sorted_list_of_set {''*.e.c''}) ({''a.e.c''}, {''*.e.c''}) ?st1
     = (Inr ({''a.e.c'', ''b.e.c''}, {''*.e.c'', ''*.x.e.c''}), ?st2)"
    by code_simp
  note r = recursion_one_level [of ?http "''e.c''" "''ua''" 25 False 0 "start ()" _ ?st1
      "{''a.e.c''}" "{''*.e.c''}" sorted_list_of_set "{''a.e.c'', ''b.e.c''}" "{''*.e.c'', ''*.x.e.c''}" ?st2
      True False None, OF h1 h2 h3 conjI [OF h4a h4b] h5]
  note r1 = r [THEN conjunct1]
    and r2 = r [THEN conjunct2, THEN conjunct1]
    and r4 = r [THEN conjunct2, THEN conjunct2, THEN conjunct2, THEN conjunct1]
    and r5 = r [THEN conjunct2, THEN conjunct2, THEN conjunct2, THEN conjunct2, THEN conjunct1]
    and r6 = r [THEN conjunct2, THEN conjunct2, THEN conjunct2, THEN conjunct2, THEN conjunct2]
  have o: "sorted_list_of_set {''*.e.c''} = [] @ ''*.e.c'' # []"
    by simp
  have b: "expand ?http False ''ua'' 25 0 [] ({''a.e.c''}, {''*.e.c''}) ?st1
             = (Inr ({''a.e.c''}, {''*.e.c''}), ?st1)"
    by (rule expand.simps(1))
  have f: "fetch_subdomains ?http (replace_star ''*.e.c'') ''ua'' 25 False 0 ?st1
             = (Inr (JArr [JObj [(''name_value'', JStr ''b.e.c\<newline>*.x.e.c'')]]), ?st2)"
    by code_simp
  note last = r6 [rule_format, of "[]" "''*.e.c''" "[]" "({''a.e.c''}, {''*.e.c''})" ?st1
      "[JObj [(''name_value'', JStr ''b.e.c\<newline>*.x.e.c'')]]" ?st2, OF conjI [OF o conjI [OF b f]]]
  show ?thesis
    by (intro conjI) (rule h1 h2 h3 h4a h4b h5 r1 r2 r4 r5 last)+
qed

section \<open>Failed fetches\<close>





section \<open>Retries\<close>



















end
